theory Spec2Isabelle
  imports Main "HOL-Library.Word" "HOL-Library.Multiset"
begin

section \<open>Tasks (class Task, Task.hpp lines 23-90)\<close>

text \<open>
  A task is a function pointer and three pointer-sized arguments. Pointers are
  64-bit words (the header calls them "64-bit (ptr-size) arguments"); the null
  pointer is the word 0. The template parameters A0, A1, A2 of createTask and of
  the spawn functions are taken at pointer size, where the casts to void* keep
  the value.
\<close>

type_synonym ptr = "64 word"

abbreviation NULL :: ptr where
  "NULL \<equiv> 0"

record Task =
  fn_p :: ptr
  arg0 :: ptr
  arg1 :: ptr
  arg2 :: ptr

text \<open>
  What a run of task code leaves behind: each call through a function pointer is
  an event of the trace; a failed CHECK ends the process with the condition's text
  and the items streamed into the message.
\<close>

datatype event = Call ptr ptr ptr ptr

datatype item = Text string | Pointer ptr

datatype fatal = CheckFailed string "item list"

text \<open>
  Task::execute (lines 62-65). CHECK is glog's macro (not defined in the header):
  when the condition is false it logs the streamed message and aborts, so the
  call on the next line is not reached.
\<close>

definition execute :: "Task \<Rightarrow> event list \<Rightarrow> fatal + event list" where
  "execute t tr =
     (if fn_p t \<noteq> NULL
      then Inr (tr @ [Call (fn_p t) (arg0 t) (arg1 t) (arg2 t)])
      else Inl (CheckFailed ''fn_p!=NULL''
             [Text ''fn_p='', Pointer (fn_p t),
              Text (CHR 0x0A # ''arg0=''), Pointer (arg0 t),
              Text (CHR 0x0A # ''arg1=''), Pointer (arg1 t),
              Text (CHR 0x0A # ''arg2=''), Pointer (arg2 t)]))"

text \<open>createTask (lines 86-90).\<close>

definition createTask :: "ptr \<Rightarrow> ptr \<Rightarrow> ptr \<Rightarrow> ptr \<Rightarrow> Task" where
  "createTask f a0 a1 a2 = \<lparr>fn_p = f, arg0 = a0, arg1 = a1, arg2 = a2\<rparr>"

section \<open>The task manager (class TaskManager, lines 112-311)\<close>

text \<open>
  The fields of the class in the order of the header: Node is int16_t,
  nextVictimIndex an int64_t, chunkSize an int, neighbors a pointer. std::deque is
  a list whose head is the front of the deque.

  The header declares publicHasEle and push_public_task but holds no field for the
  queue they work on; the last field of the record is that local shared queue.
\<close>

record TaskManager =
  privateQ :: "Task list"
  workDone :: bool
  localId :: "16 word"
  all_terminate :: bool
  doSteal :: bool
  stealLock :: bool
  doShare :: bool
  wshareLock :: bool
  doGQ :: bool
  gqPushLock :: bool
  gqPullLock :: bool
  neighbors :: ptr
  numLocalNodes :: "16 word"
  nextVictimIndex :: "64 word"
  chunkSize :: "32 word"
  sharedMayHaveWork :: bool
  publicQ :: "Task list"

text \<open>
  Modelled from the spec: publicHasEle is declared at line 165 and its body is not
  in the header. Its comment there reads "@return true if local shared queue has
  elements".
\<close>

definition publicHasEle :: "TaskManager \<Rightarrow> bool" where
  "publicHasEle s = (publicQ s \<noteq> [])"

text \<open>privateHasEle (lines 168-170).\<close>

definition privateHasEle :: "TaskManager \<Rightarrow> bool" where
  "privateHasEle s = (\<not> (privateQ s = []))"

text \<open>TaskManager::available (lines 234-242); the VLOG line only logs.\<close>

definition available :: "TaskManager \<Rightarrow> bool" where
  "available s =
     (privateHasEle s
      \<or> publicHasEle s
      \<or> (doSteal s \<and> stealLock s)
      \<or> (doShare s \<and> wshareLock s)
      \<or> (doGQ s \<and> gqPullLock s))"

text \<open>TaskManager::local_available (lines 245-250).\<close>

definition local_available :: "TaskManager \<Rightarrow> bool" where
  "local_available s = (privateHasEle s \<or> publicHasEle s)"

text \<open>TaskManager::spawnLocalPrivate (lines 281-290): push_back.\<close>

definition spawnLocalPrivate :: "ptr \<Rightarrow> ptr \<Rightarrow> ptr \<Rightarrow> ptr \<Rightarrow> TaskManager \<Rightarrow> TaskManager" where
  "spawnLocalPrivate f a0 a1 a2 s =
     (let newtask = createTask f a0 a1 a2
      in s\<lparr>privateQ := privateQ s @ [newtask]\<rparr>)"

text \<open>TaskManager::spawnRemotePrivate (lines 303-311): push_front.\<close>

definition spawnRemotePrivate :: "ptr \<Rightarrow> ptr \<Rightarrow> ptr \<Rightarrow> ptr \<Rightarrow> TaskManager \<Rightarrow> TaskManager" where
  "spawnRemotePrivate f a0 a1 a2 s =
     (let newtask = createTask f a0 a1 a2
      in s\<lparr>privateQ := newtask # privateQ s\<rparr>)"

section \<open>Publishing and consuming tasks\<close>

text \<open>
  Modelled from the spec: push_public_task is declared at line 162 and its body is
  not in the header. Section 4.1 of the specification says that spawnPublic
  "constructs the task and publishes it to the local public queue"; moving tasks
  on to the global tier belongs to load balancing and is not part of this model.
\<close>

definition push_public_task :: "Task \<Rightarrow> TaskManager \<Rightarrow> TaskManager" where
  "push_public_task t s = s\<lparr>publicQ := publicQ s @ [t]\<rparr>"

text \<open>TaskManager::spawnPublic (lines 263-267).\<close>

definition spawnPublic :: "ptr \<Rightarrow> ptr \<Rightarrow> ptr \<Rightarrow> ptr \<Rightarrow> TaskManager \<Rightarrow> TaskManager" where
  "spawnPublic f a0 a1 a2 s =
     (let newtask = createTask f a0 a1 a2
      in push_public_task newtask s)"

text \<open>
  The end of a queue a consumer takes from. Section 4.2 of the specification
  describes tryConsumeLocal as a "pop from the back of privateQ" and, in the same
  sentence, says that "front entries from remote spawns are consumed first"; for
  the public queue it names no end. The end is therefore a parameter of the
  consumers below.
\<close>

datatype qend = Front | Back

fun take_from :: "qend \<Rightarrow> 'a list \<Rightarrow> ('a \<times> 'a list) option" where
  "take_from e [] = None"
| "take_from Front (x # xs) = Some (x, xs)"
| "take_from Back (x # xs) = Some (last (x # xs), butlast (x # xs))"

text \<open>
  Modelled from the spec: tryConsumeLocal is declared at line 173 and its body is
  not in the header. Section 4.2, step 1: it pops one task from privateQ; the C++
  function returns false and leaves the result untouched when there is none.
\<close>

definition tryConsumeLocal :: "qend \<Rightarrow> TaskManager \<Rightarrow> Task option \<times> TaskManager" where
  "tryConsumeLocal e s =
     (case take_from e (privateQ s) of
        None \<Rightarrow> (None, s)
      | Some (t, q) \<Rightarrow> (Some t, s\<lparr>privateQ := q\<rparr>))"

text \<open>
  Modelled from the spec: tryConsumeShared is declared at line 174 and its body is
  not in the header. Section 4.2, step 2: "pop one task from the local public
  queue if non-empty and the shared-may-have-work hint is set".
\<close>

definition tryConsumeShared :: "qend \<Rightarrow> TaskManager \<Rightarrow> Task option \<times> TaskManager" where
  "tryConsumeShared e s =
     (if publicHasEle s \<and> sharedMayHaveWork s
      then (case take_from e (publicQ s) of
              None \<Rightarrow> (None, s)
            | Some (t, q) \<Rightarrow> (Some t, s\<lparr>publicQ := q\<rparr>))
      else (None, s))"

text \<open>
  What one getWork call ends with: a task, no work found this round, or the point
  where a steal, a work-share check or a global-queue pull would start. Those
  three go through other nodes and are outside this model.
\<close>

datatype outcome = Got Task | NoWork | LoadBalance

text \<open>
  Modelled from the spec: waitConsumeAny is declared at line 175 and its body is
  not in the header. Section 4.2, step 3: a remote source is tried only when "at
  least one of stealing / sharing / global-queue-pull is enabled"; otherwise the
  worker reports that it found no work this round.
\<close>

definition waitConsumeAny :: "TaskManager \<Rightarrow> outcome \<times> TaskManager" where
  "waitConsumeAny s =
     (if doSteal s \<or> doShare s \<or> doGQ s then (LoadBalance, s) else (NoWork, s))"

text \<open>
  Modelled from the spec: getWork is declared at line 221 and its body is not in
  the header. Section 4.2: the three steps in order, "each step only attempted if
  the previous yielded nothing". The first parameter is the end tryConsumeLocal
  takes from, the second the end tryConsumeShared takes from.
\<close>

definition getWork :: "qend \<Rightarrow> qend \<Rightarrow> TaskManager \<Rightarrow> outcome \<times> TaskManager" where
  "getWork ep es s =
     (case tryConsumeLocal ep s of
        (Some t, s') \<Rightarrow> (Got t, s')
      | (None, s') \<Rightarrow>
          (case tryConsumeShared es s' of
             (Some t, s'') \<Rightarrow> (Got t, s'')
           | (None, s'') \<Rightarrow> waitConsumeAny s''))"

text \<open>
  A sequence of calls on one manager. A run carries the manager together with the
  tasks spawned so far and the tasks getWork has handed out so far, both in the
  order of the calls.
\<close>

datatype call =
    SpawnLocalPrivate ptr ptr ptr ptr
  | SpawnRemotePrivate ptr ptr ptr ptr
  | SpawnPublic ptr ptr ptr ptr
  | GetWork

type_synonym run_state = "TaskManager \<times> Task list \<times> Task list"

fun step :: "qend \<Rightarrow> qend \<Rightarrow> call \<Rightarrow> run_state \<Rightarrow> run_state" where
  "step ep es (SpawnLocalPrivate f a0 a1 a2) (s, spawned, consumed) =
     (spawnLocalPrivate f a0 a1 a2 s, spawned @ [createTask f a0 a1 a2], consumed)"
| "step ep es (SpawnRemotePrivate f a0 a1 a2) (s, spawned, consumed) =
     (spawnRemotePrivate f a0 a1 a2 s, spawned @ [createTask f a0 a1 a2], consumed)"
| "step ep es (SpawnPublic f a0 a1 a2) (s, spawned, consumed) =
     (spawnPublic f a0 a1 a2 s, spawned @ [createTask f a0 a1 a2], consumed)"
| "step ep es GetWork (s, spawned, consumed) =
     (case getWork ep es s of
        (Got t, s') \<Rightarrow> (s', spawned, consumed @ [t])
      | (NoWork, s') \<Rightarrow> (s', spawned, consumed)
      | (LoadBalance, s') \<Rightarrow> (s', spawned, consumed))"

fun run :: "qend \<Rightarrow> qend \<Rightarrow> call list \<Rightarrow> run_state \<Rightarrow> run_state" where
  "run ep es [] st = st"
| "run ep es (c # cs) st = run ep es cs (step ep es c st)"

text \<open>The tasks a run state still holds or has handed out.\<close>

fun held :: "run_state \<Rightarrow> Task multiset" where
  "held (s, spawned, consumed) = mset (privateQ s) + mset (publicQ s) + mset consumed"

fun spawned_of :: "run_state \<Rightarrow> Task list" where
  "spawned_of (s, spawned, consumed) = spawned"

fun consumed_of :: "run_state \<Rightarrow> Task list" where
  "consumed_of (s, spawned, consumed) = consumed"

fun manager_of :: "run_state \<Rightarrow> TaskManager" where
  "manager_of (s, spawned, consumed) = s"

text \<open>
  A concrete manager for the examples below: both queues empty, every switch off,
  no guard set.
\<close>

definition idle :: TaskManager where
  "idle = \<lparr>privateQ = [], workDone = False, localId = 0, all_terminate = False,
     doSteal = False, stealLock = False, doShare = False, wshareLock = False,
     doGQ = False, gqPushLock = False, gqPullLock = False, neighbors = NULL,
     numLocalNodes = 1, nextVictimIndex = 0, chunkSize = 1,
     sharedMayHaveWork = False, publicQ = []\<rparr>"

section \<open>Queue lemmas\<close>

lemma take_from_mset:
  assumes "take_from e q = Some (t, q')"
  shows "mset q = add_mset t (mset q')"
proof (cases e)
  case Front
  with assms show ?thesis by (cases q) simp_all
next
  case Back
  with assms have ne: "q \<noteq> []" and t: "t = last q" and q': "q' = butlast q"
    by (cases q; simp)+
  from ne have "mset q = mset (butlast q @ [last q])" by simp
  with t q' show ?thesis by simp
qed

lemma tryConsumeLocal_Some:
  "tryConsumeLocal e s = (Some t, s') \<Longrightarrow>
     mset (privateQ s) = add_mset t (mset (privateQ s')) \<and> publicQ s' = publicQ s"
  by (auto simp: tryConsumeLocal_def split: option.splits dest: take_from_mset)

lemma tryConsumeLocal_None:
  "tryConsumeLocal e s = (None, s') \<Longrightarrow> s' = s"
  by (auto simp: tryConsumeLocal_def split: option.splits)

lemma tryConsumeShared_Some:
  "tryConsumeShared e s = (Some t, s') \<Longrightarrow>
     mset (publicQ s) = add_mset t (mset (publicQ s')) \<and> privateQ s' = privateQ s"
  by (auto simp: tryConsumeShared_def split: option.splits if_splits dest: take_from_mset)

lemma tryConsumeShared_None:
  "tryConsumeShared e s = (None, s') \<Longrightarrow> s' = s"
  by (auto simp: tryConsumeShared_def split: option.splits if_splits)

lemma waitConsumeAny_same:
  "waitConsumeAny s = (r, s') \<Longrightarrow> s' = s \<and> r \<noteq> Got t"
  by (auto simp: waitConsumeAny_def split: if_splits)

text \<open>A getWork call that returns a task removes exactly that task from the two queues.\<close>

lemma getWork_Got:
  "getWork ep es s = (Got t, s') \<Longrightarrow>
     mset (privateQ s) + mset (publicQ s)
       = add_mset t (mset (privateQ s') + mset (publicQ s'))"
  unfolding getWork_def
  by (auto split: prod.splits option.splits
      dest!: tryConsumeLocal_Some tryConsumeLocal_None tryConsumeShared_Some
        tryConsumeShared_None
      dest: waitConsumeAny_same)

text \<open>A getWork call that returns no task leaves the manager as it was.\<close>

lemma getWork_not_Got:
  "getWork ep es s = (r, s') \<Longrightarrow> \<forall>t. r \<noteq> Got t \<Longrightarrow> s' = s"
  unfolding getWork_def
  by (auto split: prod.splits option.splits
      dest!: tryConsumeLocal_None tryConsumeShared_None
      dest: waitConsumeAny_same)

text \<open>
  Conservation: every call adds as many tasks to the queues and the consumed list
  as it adds to the spawned list.
\<close>

lemma step_held:
  "held (step ep es c st) + mset (spawned_of st)
     = held st + mset (spawned_of (step ep es c st))"
proof (cases st)
  case (fields s sp co)
  show ?thesis
  proof (cases c)
    case GetWork
    obtain r s' where g: "getWork ep es s = (r, s')" by (cases "getWork ep es s")
    show ?thesis
    proof (cases r)
      case (Got t)
      with g getWork_Got [of ep es s t s'] fields GetWork show ?thesis by simp
    next
      case NoWork
      with g getWork_not_Got [of ep es s r s'] fields GetWork show ?thesis by simp
    next
      case LoadBalance
      with g getWork_not_Got [of ep es s r s'] fields GetWork show ?thesis by simp
    qed
  qed (simp_all add: fields spawnLocalPrivate_def spawnRemotePrivate_def spawnPublic_def
        push_public_task_def)
qed

lemma run_held:
  "held (run ep es cs st) + mset (spawned_of st)
     = held st + mset (spawned_of (run ep es cs st))"
proof (induction cs arbitrary: st)
  case Nil
  show ?case by simp
next
  case (Cons c cs)
  let ?st1 = "step ep es c st"
  have "held (run ep es cs ?st1) + mset (spawned_of ?st1) + mset (spawned_of st)
      = held ?st1 + mset (spawned_of (run ep es cs ?st1)) + mset (spawned_of st)"
    using Cons.IH [of ?st1] by simp
  also have "\<dots> = held st + mset (spawned_of ?st1) + mset (spawned_of (run ep es cs ?st1))"
    using step_held [of ep es c st] by (simp add: ac_simps)
  finally show ?case by simp
qed

text \<open>
  The order in which tryConsumeLocal hands out the private queue depends on the
  end it takes from. With remote-origin tasks \<open>rs\<close> at the front and local tasks
  \<open>ls\<close> behind them, taking from the front returns a remote-origin task first,
  taking from the back returns a local task first.
\<close>

lemma tryConsumeLocal_Front_remote_first:
  "rs \<noteq> [] \<Longrightarrow> privateQ s = rs @ ls \<Longrightarrow>
     tryConsumeLocal Front s = (Some (hd rs), s\<lparr>privateQ := tl rs @ ls\<rparr>)"
  by (cases rs) (simp_all add: tryConsumeLocal_def)

lemma tryConsumeLocal_Back_local_first:
  assumes "ls \<noteq> []" and "privateQ s = rs @ ls"
  shows "tryConsumeLocal Back s = (Some (last ls), s\<lparr>privateQ := rs @ butlast ls\<rparr>)"
proof -
  from assms(1) obtain x xs where c: "rs @ ls = x # xs" by (cases "rs @ ls") auto
  have "take_from Back (rs @ ls) = Some (last (rs @ ls), butlast (rs @ ls))"
    unfolding c by simp
  with assms show ?thesis by (simp add: tryConsumeLocal_def butlast_append)
qed

section \<open>Snapshots of available work\<close>

text \<open>
  Claim C1, amended. available() is false exactly when local_available() is false
  and no guard flag is set whose feature switch is on: none of doSteal with
  stealLock, doShare with wshareLock, doGQ with gqPullLock. When both queues are
  empty and such a pair is set, available() is true. The header tests each guard
  flag together with its switch, so a guard flag whose switch is off does not
  count; the claim without the switches fails (see the example after the
  witness). A guard is read as held when its flag is true.
\<close>

theorem available_false_iff:
  "(\<not> available s) =
     (\<not> local_available s
      \<and> \<not> (doSteal s \<and> stealLock s)
      \<and> \<not> (doShare s \<and> wshareLock s)
      \<and> \<not> (doGQ s \<and> gqPullLock s))"
  by (simp add: available_def local_available_def)

theorem available_false_iff_witness:
  "\<not> available idle
   \<and> available (idle\<lparr>doSteal := True, stealLock := True\<rparr>)
   \<and> \<not> local_available (idle\<lparr>doSteal := True, stealLock := True\<rparr>)"
proof -
  have a: "\<not> available idle"
    unfolding available_false_iff [of idle]
    by (simp add: idle_def local_available_def privateHasEle_def publicHasEle_def)
  have b: "\<not> (\<not> available (idle\<lparr>doSteal := True, stealLock := True\<rparr>))"
    unfolding available_false_iff [of "idle\<lparr>doSteal := True, stealLock := True\<rparr>"]
    by (simp add: idle_def)
  have c: "\<not> local_available (idle\<lparr>doSteal := True, stealLock := True\<rparr>)"
    by (simp add: idle_def local_available_def privateHasEle_def publicHasEle_def)
  from a b c show ?thesis by simp
qed

text \<open>
  Both queues empty, stealing switched off, stealLock set: a guard is held and
  available() is false all the same.
\<close>

theorem available_guard_off_counterexample:
  "privateQ (idle\<lparr>stealLock := True\<rparr>) = []
   \<and> publicQ (idle\<lparr>stealLock := True\<rparr>) = []
   \<and> \<not> doSteal (idle\<lparr>stealLock := True\<rparr>)
   \<and> stealLock (idle\<lparr>stealLock := True\<rparr>)
   \<and> \<not> local_available (idle\<lparr>stealLock := True\<rparr>)
   \<and> \<not> available (idle\<lparr>stealLock := True\<rparr>)"
  by (simp add: idle_def available_def local_available_def privateHasEle_def
      publicHasEle_def)

text \<open>
  Claim C2. local_available() is true exactly when the private queue is non-empty
  or publicHasEle() holds, that is, when the private queue or the public queue is
  non-empty; and it reads nothing else: two managers with the same two queues get
  the same answer, whatever their guards and switches.
\<close>

theorem local_available_iff_queues:
  "(local_available s \<longleftrightarrow> privateQ s \<noteq> [] \<or> publicHasEle s)
   \<and> (local_available s \<longleftrightarrow> privateQ s \<noteq> [] \<or> publicQ s \<noteq> [])
   \<and> (\<forall>s'. privateQ s' = privateQ s \<and> publicQ s' = publicQ s
          \<longrightarrow> local_available s' = local_available s)"
  by (simp add: local_available_def privateHasEle_def publicHasEle_def)

theorem local_available_iff_queues_witness:
  "\<not> local_available idle
   \<and> local_available (spawnPublic 1 2 3 4 idle)
   \<and> local_available (idle\<lparr>doSteal := True, stealLock := True\<rparr>) = local_available idle"
proof -
  have a: "\<not> local_available idle"
    using local_available_iff_queues [of idle] by (simp add: idle_def publicHasEle_def)
  have b: "local_available (spawnPublic 1 2 3 4 idle)"
    using local_available_iff_queues [of "spawnPublic 1 2 3 4 idle"]
    by (simp add: spawnPublic_def push_public_task_def publicHasEle_def)
  have "privateQ (idle\<lparr>doSteal := True, stealLock := True\<rparr>) = privateQ idle
      \<and> publicQ (idle\<lparr>doSteal := True, stealLock := True\<rparr>) = publicQ idle"
    by simp
  with local_available_iff_queues [of idle]
  have c: "local_available (idle\<lparr>doSteal := True, stealLock := True\<rparr>)
         = local_available idle"
    by blast
  from a b c show ?thesis by blast
qed

text \<open>
  Claim C9. local_available() implies available(); and available() is true while
  local_available() is false only when some feature switch is on and its guard
  flag is set.
\<close>

theorem local_available_implies_available:
  "(local_available s \<longrightarrow> available s)
   \<and> (available s \<and> \<not> local_available s \<longrightarrow>
        (doSteal s \<and> stealLock s) \<or> (doShare s \<and> wshareLock s)
        \<or> (doGQ s \<and> gqPullLock s))"
  by (auto simp add: local_available_def available_def)

theorem local_available_implies_available_witness:
  "local_available (spawnLocalPrivate 1 2 3 4 idle)
   \<and> available (spawnLocalPrivate 1 2 3 4 idle)
   \<and> available (idle\<lparr>doGQ := True, gqPullLock := True\<rparr>)
   \<and> \<not> local_available (idle\<lparr>doGQ := True, gqPullLock := True\<rparr>)
   \<and> doGQ (idle\<lparr>doGQ := True, gqPullLock := True\<rparr>)
   \<and> gqPullLock (idle\<lparr>doGQ := True, gqPullLock := True\<rparr>)"
proof -
  have l: "local_available (spawnLocalPrivate 1 2 3 4 idle)"
    by (simp add: local_available_def privateHasEle_def spawnLocalPrivate_def)
  with local_available_implies_available [of "spawnLocalPrivate 1 2 3 4 idle"]
  have a: "available (spawnLocalPrivate 1 2 3 4 idle)" by blast
  have b: "available (idle\<lparr>doGQ := True, gqPullLock := True\<rparr>)"
    by (simp add: available_def)
  have c: "\<not> local_available (idle\<lparr>doGQ := True, gqPullLock := True\<rparr>)"
    by (simp add: idle_def local_available_def privateHasEle_def publicHasEle_def)
  from l a b c show ?thesis by simp
qed

section \<open>Spawning into the private queue\<close>

text \<open>
  Claim C5. spawnLocalPrivate(f, a0, a1, a2) builds the task with exactly these
  four fields and appends it to the back of privateQ: the queue is one longer,
  the new task is its last element, and the tasks before it are the old queue.
\<close>

theorem spawnLocalPrivate_appends:
  "privateQ (spawnLocalPrivate f a0 a1 a2 s)
     = privateQ s @ [\<lparr>fn_p = f, arg0 = a0, arg1 = a1, arg2 = a2\<rparr>]
   \<and> length (privateQ (spawnLocalPrivate f a0 a1 a2 s)) = length (privateQ s) + 1
   \<and> last (privateQ (spawnLocalPrivate f a0 a1 a2 s))
       = \<lparr>fn_p = f, arg0 = a0, arg1 = a1, arg2 = a2\<rparr>
   \<and> butlast (privateQ (spawnLocalPrivate f a0 a1 a2 s)) = privateQ s"
  by (simp add: spawnLocalPrivate_def createTask_def)

theorem spawnLocalPrivate_appends_witness:
  "privateQ (spawnLocalPrivate 5 6 7 8 (spawnLocalPrivate 1 2 3 4 idle))
     = [\<lparr>fn_p = 1, arg0 = 2, arg1 = 3, arg2 = 4\<rparr>,
        \<lparr>fn_p = 5, arg0 = 6, arg1 = 7, arg2 = 8\<rparr>]"
  using spawnLocalPrivate_appends [of 5 6 7 8 "spawnLocalPrivate 1 2 3 4 idle"]
    spawnLocalPrivate_appends [of 1 2 3 4 idle]
  by (simp add: idle_def)




text \<open>
  Claim C10. Both private spawns change privateQ only, which grows by exactly one
  task; every other field of the manager and the public queue keep their values.
\<close>

theorem spawn_private_frame:
  "(let s' = spawnLocalPrivate f a0 a1 a2 s in
      length (privateQ s') = length (privateQ s) + 1
      \<and> workDone s' = workDone s \<and> localId s' = localId s
      \<and> all_terminate s' = all_terminate s
      \<and> doSteal s' = doSteal s \<and> stealLock s' = stealLock s
      \<and> doShare s' = doShare s \<and> wshareLock s' = wshareLock s
      \<and> doGQ s' = doGQ s \<and> gqPushLock s' = gqPushLock s \<and> gqPullLock s' = gqPullLock s
      \<and> neighbors s' = neighbors s \<and> numLocalNodes s' = numLocalNodes s
      \<and> nextVictimIndex s' = nextVictimIndex s \<and> chunkSize s' = chunkSize s
      \<and> sharedMayHaveWork s' = sharedMayHaveWork s \<and> publicQ s' = publicQ s)
   \<and> (let s' = spawnRemotePrivate f a0 a1 a2 s in
      length (privateQ s') = length (privateQ s) + 1
      \<and> workDone s' = workDone s \<and> localId s' = localId s
      \<and> all_terminate s' = all_terminate s
      \<and> doSteal s' = doSteal s \<and> stealLock s' = stealLock s
      \<and> doShare s' = doShare s \<and> wshareLock s' = wshareLock s
      \<and> doGQ s' = doGQ s \<and> gqPushLock s' = gqPushLock s \<and> gqPullLock s' = gqPullLock s
      \<and> neighbors s' = neighbors s \<and> numLocalNodes s' = numLocalNodes s
      \<and> nextVictimIndex s' = nextVictimIndex s \<and> chunkSize s' = chunkSize s
      \<and> sharedMayHaveWork s' = sharedMayHaveWork s \<and> publicQ s' = publicQ s)"
  by (simp add: spawnLocalPrivate_def spawnRemotePrivate_def)

theorem spawn_private_frame_witness:
  "length (privateQ (spawnLocalPrivate 1 2 3 4 idle)) = 1
   \<and> length (privateQ (spawnRemotePrivate 1 2 3 4 idle)) = 1
   \<and> chunkSize (spawnLocalPrivate 1 2 3 4 idle) = 1
   \<and> publicQ (spawnRemotePrivate 1 2 3 4 idle) = []"
  using spawn_private_frame [of 1 2 3 4 idle]
  by (simp add: idle_def Let_def)

section \<open>Executing a task\<close>

text \<open>
  Claim C7. execute on a task whose function pointer is null ends in the failed
  CHECK, before any call, with a message that carries the function pointer and
  the three arguments; with a non-null function pointer the CHECK passes and
  execute makes the call.
\<close>

theorem execute_check:
  "(fn_p t = NULL \<longrightarrow>
      execute t tr = Inl (CheckFailed ''fn_p!=NULL''
        [Text ''fn_p='', Pointer (fn_p t),
         Text (CHR 0x0A # ''arg0=''), Pointer (arg0 t),
         Text (CHR 0x0A # ''arg1=''), Pointer (arg1 t),
         Text (CHR 0x0A # ''arg2=''), Pointer (arg2 t)]))
   \<and> (fn_p t \<noteq> NULL \<longrightarrow>
      execute t tr = Inr (tr @ [Call (fn_p t) (arg0 t) (arg1 t) (arg2 t)]))"
  by (simp add: execute_def)

theorem execute_check_witness:
  "execute \<lparr>fn_p = NULL, arg0 = 1, arg1 = 2, arg2 = 3\<rparr> []
     = Inl (CheckFailed ''fn_p!=NULL''
        [Text ''fn_p='', Pointer NULL,
         Text (CHR 0x0A # ''arg0=''), Pointer 1,
         Text (CHR 0x0A # ''arg1=''), Pointer 2,
         Text (CHR 0x0A # ''arg2=''), Pointer 3])
   \<and> execute \<lparr>fn_p = 7, arg0 = 1, arg1 = 2, arg2 = 3\<rparr> [] = Inr [Call 7 1 2 3]"
  using execute_check [of "\<lparr>fn_p = NULL, arg0 = 1, arg1 = 2, arg2 = 3\<rparr>" "[]"]
    execute_check [of "\<lparr>fn_p = 7, arg0 = 1, arg1 = 2, arg2 = 3\<rparr>" "[]"]
  by simp

text \<open>
  Claim C8. For a non-null f, executing createTask(f, a0, a1, a2) succeeds and
  adds exactly one call to the trace: f on (a0, a1, a2).
\<close>

theorem createTask_execute:
  "f \<noteq> NULL \<Longrightarrow> execute (createTask f a0 a1 a2) tr = Inr (tr @ [Call f a0 a1 a2])"
  by (simp add: execute_def createTask_def)

theorem createTask_execute_witness:
  "(7 :: ptr) \<noteq> NULL \<and> execute (createTask 7 1 2 3) [] = Inr [Call 7 1 2 3]"
proof -
  have h: "(7 :: ptr) \<noteq> NULL" by simp
  from createTask_execute [OF h, of 1 2 3 "[]"] h show ?thesis by simp
qed

section \<open>Spawned tasks and consumed tasks\<close>

text \<open>
  Claim C3. With stealing, sharing and the global queue switched off, take any
  sequence of spawn and getWork calls on a manager whose queues start empty. If
  available() is false afterwards, the tasks getWork handed out are exactly the
  tasks spawned, each as often as it was spawned, and so equally many. This holds
  for either end tryConsumeLocal and tryConsumeShared may take from.
\<close>

theorem getWork_conserves_tasks:
  assumes "\<not> doSteal s" "\<not> doShare s" "\<not> doGQ s"
    and "privateQ s = []" "publicQ s = []"
    and "run ep es cs (s, [], []) = (s', spawned, consumed)"
    and "\<not> available s'"
  shows "mset consumed = mset spawned \<and> length consumed = length spawned"
proof -
  have "held (s', spawned, consumed) + mset (spawned_of (s, [], []))
      = held (s, [], []) + mset (spawned_of (s', spawned, consumed))"
    using run_held [of ep es cs "(s, [], [])"] assms(6) by simp
  then have "mset (privateQ s') + mset (publicQ s') + mset consumed = mset spawned"
    using assms(4,5) by simp
  moreover have "privateQ s' = []" "publicQ s' = []"
    using assms(7) by (simp_all add: available_def privateHasEle_def publicHasEle_def)
  ultimately have "mset consumed = mset spawned" by simp
  then show ?thesis using mset_eq_length by blast
qed

theorem getWork_conserves_tasks_witness:
  "run Back Front
     [SpawnLocalPrivate 1 2 3 4, SpawnPublic 5 6 7 8, SpawnRemotePrivate 9 10 11 12,
      GetWork, GetWork, GetWork, GetWork]
     (idle\<lparr>sharedMayHaveWork := True\<rparr>, [], [])
   = (idle\<lparr>sharedMayHaveWork := True\<rparr>,
      [createTask 1 2 3 4, createTask 5 6 7 8, createTask 9 10 11 12],
      [createTask 1 2 3 4, createTask 9 10 11 12, createTask 5 6 7 8])
   \<and> \<not> available (idle\<lparr>sharedMayHaveWork := True\<rparr>)
   \<and> mset [createTask 1 2 3 4, createTask 9 10 11 12, createTask 5 6 7 8]
       = mset [createTask 1 2 3 4, createTask 5 6 7 8, createTask 9 10 11 12]
   \<and> length [createTask 1 2 3 4, createTask 9 10 11 12, createTask 5 6 7 8]
       = length [createTask 1 2 3 4, createTask 5 6 7 8, createTask 9 10 11 12]"
proof -
  let ?s = "idle\<lparr>sharedMayHaveWork := True\<rparr>"
  have r: "run Back Front
     [SpawnLocalPrivate 1 2 3 4, SpawnPublic 5 6 7 8, SpawnRemotePrivate 9 10 11 12,
      GetWork, GetWork, GetWork, GetWork] (?s, [], [])
   = (?s, [createTask 1 2 3 4, createTask 5 6 7 8, createTask 9 10 11 12],
      [createTask 1 2 3 4, createTask 9 10 11 12, createTask 5 6 7 8])"
    by (simp add: idle_def spawnLocalPrivate_def spawnRemotePrivate_def spawnPublic_def
        push_public_task_def getWork_def tryConsumeLocal_def tryConsumeShared_def
        waitConsumeAny_def publicHasEle_def)
  have na: "\<not> available ?s"
    by (simp add: idle_def available_def privateHasEle_def publicHasEle_def)
  have f: "\<not> doSteal ?s" "\<not> doShare ?s" "\<not> doGQ ?s" "privateQ ?s = []" "publicQ ?s = []"
    by (simp_all add: idle_def)
  from getWork_conserves_tasks [OF f r na] r na show ?thesis by blast
qed

end
